theory Spec2Isabelle
  imports Main "HOL-Library.Word"
begin

unbundle bit_operations_syntax

section \<open>hexedit.cpp: data model\<close>

text \<open>
  The program patches a copy of a binary file: it reads the source file into a buffer,
  overwrites bytes at an offset with the bytes decoded from a hexadecimal string, writes
  the buffer to a destination file and copies the access and modification times.

  A \<open>char\<close> of a \<open>std::string\<close> is an Isabelle \<open>char\<close> (one byte), an
  \<open>unsigned char\<close> and a \<open>char\<close> of a file buffer are an 8-bit word, \<open>std::size_t\<close>
  indices are natural numbers, and the signed 64-bit types \<open>long\<close> and \<open>off_t\<close> are
  integers on which every arithmetic result is wrapped explicitly by \<open>swrap 64\<close>.
\<close>

type_synonym byte = "8 word"

text \<open>The only exception the program throws itself is \<open>std::runtime_error\<close> with a message.\<close>

datatype error = RuntimeError string

text \<open>Two's complement wrap-around of an integer to a signed type of \<open>w\<close> bits.\<close>

definition swrap :: "nat \<Rightarrow> int \<Rightarrow> int" where
  "swrap w x = (x + 2 ^ (w - 1)) mod 2 ^ w - 2 ^ (w - 1)"

section \<open>secureZero (lines 36--41)\<close>

text \<open>
  \<^verbatim>\<open>while (len--) { *p++ = 0; }\<close> over a volatile pointer. Memory is a store from
  addresses to bytes, the pointer is an address; each iteration writes zero at the
  pointer, advances the pointer and decrements the remaining length.
\<close>

type_synonym memory = "nat \<Rightarrow> byte"

fun secureZero :: "nat \<Rightarrow> nat \<Rightarrow> memory \<Rightarrow> memory" where
  "secureZero p 0 mem = mem"
| "secureZero p (Suc len) mem = secureZero (p + 1) len (mem(p := 0))"

section \<open>parseHexString (lines 46--69)\<close>

text \<open>
  The lambda \<open>hexVal\<close>: the value of one hexadecimal digit as an \<open>int\<close>, or the
  exception for any other character. Characters are compared by their code. (Where
  \<open>char\<close> is signed, a byte above 127 is negative and fails the three range tests;
  read as unsigned it is above \<open>'f'\<close> and fails them too, so the outcome is the same.)
\<close>

definition hexVal :: "char \<Rightarrow> error + int" where
  "hexVal c =
     (let n = (of_char c :: int) in
      if of_char CHR ''0'' \<le> n \<and> n \<le> of_char CHR ''9'' then Inr (n - of_char CHR ''0'')
      else if of_char CHR ''A'' \<le> n \<and> n \<le> of_char CHR ''F'' then Inr (n - of_char CHR ''A'' + 10)
      else if of_char CHR ''a'' \<le> n \<and> n \<le> of_char CHR ''f'' then Inr (n - of_char CHR ''a'' + 10)
      else Inl (RuntimeError (''Invalid hex character: '' @ [c])))"

text \<open>
  \<open>std::string::operator[]\<close>: the character at an index below the size, and the
  terminating NUL at the index equal to the size.
\<close>

definition str_at :: "string \<Rightarrow> nat \<Rightarrow> char" where
  "str_at s i = (if i < length s then s ! i else CHR 0x00)"

text \<open>\<^verbatim>\<open>static_cast<unsigned char>((hi << 4) | lo)\<close>\<close>

definition byteVal :: "int \<Rightarrow> int \<Rightarrow> byte" where
  "byteVal hi lo = word_of_int (push_bit 4 hi OR lo)"

text \<open>
  The \<open>for\<close> loop of lines 62--67, from index \<open>i\<close> with the bytes pushed so far in
  \<open>result\<close>. An exception of \<open>hexVal\<close> leaves the loop at once.
\<close>

function parse_loop :: "string \<Rightarrow> nat \<Rightarrow> byte list \<Rightarrow> error + byte list" where
  "parse_loop hexStr i result =
     (if i < length hexStr then
        (case hexVal (str_at hexStr i) of
           Inl e \<Rightarrow> Inl e
         | Inr hi \<Rightarrow>
            (case hexVal (str_at hexStr (i + 1)) of
               Inl e \<Rightarrow> Inl e
             | Inr lo \<Rightarrow> parse_loop hexStr (i + 2) (result @ [byteVal hi lo])))
      else Inr result)"
  by pat_completeness auto
termination
  by (relation "measure (\<lambda>(hexStr, i, result). length hexStr - i)") auto

declare parse_loop.simps [simp del]

definition parseHexString :: "string \<Rightarrow> error + byte list" where
  "parseHexString hexStr =
     (if length hexStr mod 2 \<noteq> 0 then Inl (RuntimeError ''Hex string length is odd.'')
      else parse_loop hexStr 0 [])"

section \<open>The patch loop of main (lines 134--140)\<close>

text \<open>
  The \<open>for\<close> loop over the decoded bytes, from index \<open>i\<close>. \<open>dstPos\<close> is computed in
  \<open>off_t\<close>: the index \<open>i\<close> is converted to \<open>off_t\<close> and added to \<open>pos\<close>, each with
  64-bit wrap-around. The loop breaks when \<open>dstPos >= fileSize\<close>. Indexing the vector
  outside its bounds has no defined behaviour in the source; the model returns \<open>None\<close>
  there. Beside the buffer the loop returns the indices it stored to, in order.
\<close>

function patch_loop ::
  "int \<Rightarrow> int \<Rightarrow> byte list \<Rightarrow> nat \<Rightarrow> byte list \<times> int list \<Rightarrow> (byte list \<times> int list) option" where
  "patch_loop pos fileSize binData i (buffer, written) =
     (if i < length binData then
        (let dstPos = swrap 64 (pos + swrap 64 (int i)) in
         if dstPos \<ge> fileSize then Some (buffer, written)
         else if 0 \<le> dstPos \<and> nat dstPos < length buffer then
           patch_loop pos fileSize binData (i + 1)
             (buffer[nat dstPos := binData ! i], written @ [dstPos])
         else None)
      else Some (buffer, written))"
  by pat_completeness auto
termination
  by (relation "measure (\<lambda>(pos, fileSize, binData, i, st). length binData - i)") auto

declare patch_loop.simps [simp del]

text \<open>The guarded block: \<^verbatim>\<open>if (pos >= 0 && static_cast<off_t>(pos) < fileSize) { for ... }\<close>\<close>

definition apply_patch ::
  "int \<Rightarrow> int \<Rightarrow> byte list \<Rightarrow> byte list \<Rightarrow> (byte list \<times> int list) option" where
  "apply_patch pos fileSize binData buffer =
     (if pos \<ge> 0 \<and> pos < fileSize then patch_loop pos fileSize binData 0 (buffer, [])
      else Some (buffer, []))"

section \<open>The C library and the file system\<close>

text \<open>
  \<open>strtol(nptr, nullptr, 10)\<close> as ISO C defines it in the "C" locale: leading white
  space is skipped, one optional sign is read, then the longest run of decimal digits is
  converted; what follows the digits is ignored; with no digit the result is 0; a value
  outside \<open>long\<close> is clamped to \<open>LONG_MIN\<close> or \<open>LONG_MAX\<close>.
\<close>

definition isspace :: "char \<Rightarrow> bool" where
  "isspace c = (c \<in> set [CHR '' '', CHR 0x09, CHR 0x0A, CHR 0x0B, CHR 0x0C, CHR 0x0D])"

definition isdigit :: "char \<Rightarrow> bool" where
  "isdigit c = (c \<in> set ''0123456789'')"

definition LONG_MAX :: int where "LONG_MAX = 2 ^ 63 - 1"
definition LONG_MIN :: int where "LONG_MIN = - (2 ^ 63)"

text \<open>The sign and the digit sequence that \<open>strtol\<close> converts.\<close>

definition strtol_subject :: "string \<Rightarrow> bool \<times> string" where
  "strtol_subject nptr =
     (let s = dropWhile isspace nptr;
          neg = (s \<noteq> [] \<and> hd s = CHR ''-'');
          s' = (if s \<noteq> [] \<and> (hd s = CHR ''-'' \<or> hd s = CHR ''+'') then tl s else s)
      in (neg, takeWhile isdigit s'))"

definition strtol :: "string \<Rightarrow> int" where
  "strtol nptr =
     (let (neg, ds) = strtol_subject nptr;
          v = foldl (\<lambda>acc c. acc * 10 + (of_char c - of_char CHR ''0'')) 0 ds
      in if neg then max LONG_MIN (- v) else min LONG_MAX v)"

text \<open>
  Times: \<open>struct timespec\<close> (seconds, nanoseconds) as \<open>stat\<close> reports them and
  \<open>struct timeval\<close> (seconds, microseconds) as \<open>utimes\<close> takes them. The seconds field of
  \<open>timeval\<close> is named \<open>tvl_sec\<close> here, since two records cannot share a field name.
\<close>

record timespec =
  tv_sec :: int
  tv_nsec :: int

record timeval =
  tvl_sec :: int
  tv_usec :: int

record stat =
  st_size :: int
  st_atimespec :: timespec
  st_mtimespec :: timespec

text \<open>
  The file system maps a path to a file (content, access time, modification time). The
  world also says which operations the operating system lets succeed, how the C++ library
  buffers an output stream, what the clock reads, and which file operations have been
  performed so far.
\<close>

record regular_file =
  content :: "byte list"
  atime :: timespec
  mtime :: timespec

datatype io_event =
  Stat string | OpenRead string | OpenTrunc string | WriteBytes string nat | Utimes string

record world =
  files :: "string \<rightharpoonup> regular_file"
  open_ok :: "string \<Rightarrow> bool"
  read_ok :: "string \<Rightarrow> bool"
  create_ok :: "string \<Rightarrow> bool"
  write_limit :: "string \<Rightarrow> nat option"
  stream_held :: "nat \<Rightarrow> nat"
  utimes_ok :: "string \<Rightarrow> bool"
  now :: timespec
  trace :: "io_event list"

text \<open>How a run of the program ends; the exit code is 0 for \<open>Success\<close> only.\<close>

datatype outcome =
    Usage
  | InvalidOrder
  | StatFailed string
  | OpenFailed string
  | ReadFailed string
  | Caught error
  | OutOfBounds
  | CreateFailed string
  | WriteFailed string
  | UtimesFailed string
  | Success

fun exit_code :: "outcome \<Rightarrow> int" where
  "exit_code Success = 0"
| "exit_code _ = 1"

text \<open>\<open>stat(path, &st)\<close>: fails when the path names no file.\<close>

definition stat_file :: "string \<Rightarrow> world \<Rightarrow> stat option \<times> world" where
  "stat_file path w =
     (let w' = w\<lparr>trace := trace w @ [Stat path]\<rparr> in
      case files w path of
        None \<Rightarrow> (None, w')
      | Some f \<Rightarrow>
          (Some \<lparr>st_size = int (length (content f)),
                 st_atimespec = atime f, st_mtimespec = mtime f\<rparr>, w'))"

text \<open>
  Lines 112--124: a buffer of \<open>fileSize\<close> bytes is filled from the file. Opening fails
  when the system refuses it; reading fails when the system refuses it or the file
  holds fewer than \<open>fileSize\<close> bytes.
\<close>

definition read_source :: "string \<Rightarrow> int \<Rightarrow> world \<Rightarrow> (outcome + byte list) \<times> world" where
  "read_source srcFile fileSize w =
     (let w' = w\<lparr>trace := trace w @ [OpenRead srcFile]\<rparr> in
      case files w srcFile of
        None \<Rightarrow> (Inl (OpenFailed srcFile), w')
      | Some f \<Rightarrow>
          if \<not> open_ok w srcFile then (Inl (OpenFailed srcFile), w')
          else if \<not> read_ok w srcFile \<or> int (length (content f)) < fileSize
          then (Inl (ReadFailed srcFile), w')
          else (Inr (take (nat fileSize) (content f)), w'))"

text \<open>
  Lines 149--160: the destination is created or truncated and \<open>fileSize\<close> bytes of the
  buffer are given to the stream. A \<open>std::ofstream\<close> is buffered: of \<open>n\<close> bytes,
  \<open>write\<close> passes some to the system before it returns and holds the others until the
  destructor closes the stream at the end of the block; \<open>stream_held\<close> says how many it
  holds, which the C++ library decides (all of them when \<open>n\<close> is small). \<open>write_limit\<close>
  is the number of bytes the system accepts for the path (\<open>None\<close>: no limit).
\<close>

definition bytes_passed :: "world \<Rightarrow> nat \<Rightarrow> nat" where
  "bytes_passed w n = n - min (stream_held w n) n"

definition bytes_taken :: "world \<Rightarrow> string \<Rightarrow> nat \<Rightarrow> nat" where
  "bytes_taken w path n = (case write_limit w path of None \<Rightarrow> n | Some k \<Rightarrow> min k n)"

text \<open>
  The test \<open>!fout\<close> of line 156 follows \<open>write\<close> at once: it sees a refusal among the
  bytes passed so far, and nothing of the bytes still held. The destructor then flushes
  them and closes the file on every path, and its result is not checked. So the file
  ends with the bytes the system took, and the run goes on unless the system refused a
  byte that \<open>write\<close> itself passed.
\<close>

definition write_dest :: "string \<Rightarrow> byte list \<Rightarrow> int \<Rightarrow> world \<Rightarrow> outcome option \<times> world" where
  "write_dest dstFile buffer fileSize w =
     (let w' = w\<lparr>trace := trace w @ [OpenTrunc dstFile]\<rparr> in
      if \<not> create_ok w dstFile then (Some (CreateFailed dstFile), w')
      else
        (let created = \<lparr>content = [],
                        atime = (case files w dstFile of None \<Rightarrow> now w | Some f \<Rightarrow> atime f),
                        mtime = now w\<rparr>;
             n = nat fileSize;
             passed = bytes_passed w n;
             taken = bytes_taken w dstFile n;
             w'' = w'\<lparr>files := (files w')(dstFile \<mapsto> created\<lparr>content := take taken buffer\<rparr>),
                      trace := trace w' @ [WriteBytes dstFile taken]\<rparr>
         in if taken < passed then (Some (WriteFailed dstFile), w'') else (None, w'')))"

text \<open>\<open>utimes(path, times)\<close>: sets both times of an existing file, in microseconds.\<close>

definition utimes :: "string \<Rightarrow> timeval \<Rightarrow> timeval \<Rightarrow> world \<Rightarrow> bool \<times> world" where
  "utimes path t0 t1 w =
     (let w' = w\<lparr>trace := trace w @ [Utimes path]\<rparr> in
      case files w path of
        None \<Rightarrow> (False, w')
      | Some f \<Rightarrow>
          if \<not> utimes_ok w path then (False, w')
          else (True, w'\<lparr>files := (files w')(path \<mapsto>
                  f\<lparr>atime := \<lparr>tv_sec = tvl_sec t0, tv_nsec = tv_usec t0 * 1000\<rparr>,
                    mtime := \<lparr>tv_sec = tvl_sec t1, tv_nsec = tv_usec t1 * 1000\<rparr>\<rparr>)\<rparr>))"

text \<open>C division truncates towards zero.\<close>

definition c_div :: "int \<Rightarrow> int \<Rightarrow> int" where
  "c_div a b = sgn a * sgn b * (\<bar>a\<bar> div \<bar>b\<bar>)"

text \<open>
  Lines 164--168: a \<open>timespec\<close> of the source becomes a \<open>timeval\<close>;
  \<^verbatim>\<open>static_cast<suseconds_t>(tv_nsec / 1000)\<close> with the 32-bit \<open>suseconds_t\<close> of the
  platform that has \<open>st_atimespec\<close>.
\<close>

definition to_timeval :: "timespec \<Rightarrow> timeval" where
  "to_timeval ts = \<lparr>tvl_sec = tv_sec ts, tv_usec = swrap 32 (c_div (tv_nsec ts) 1000)\<rparr>"

section \<open>main (lines 71--184)\<close>

text \<open>
  The \<open>try\<close> block. The two calls of \<open>secureZero\<close> (lines 130 and 144) and the
  \<open>clear()\<close> after each overwrite \<open>hexStr\<close> and \<open>binData\<close>, which are not read again, so
  they do not appear in the result. An exception thrown in the block is caught at
  line 180 and ends the run with exit code 1. Allocating the buffer and the vectors is
  taken to succeed. The messages on standard error and standard output are not modelled:
  the outcome names the exit path, and each path prints one fixed message.
\<close>

definition main_try :: "string list \<Rightarrow> world \<Rightarrow> outcome \<times> world" where
  "main_try argv w =
     (let pos = strtol (argv ! 2);
          hexStr = argv ! 4
      in if length hexStr > 1000
         then (Caught (RuntimeError ''HEX data length exceeds maximum allowed (1000 characters).''), w)
         else
          (let srcFile = argv ! 6; dstFile = argv ! 8 in
           case stat_file srcFile w of
             (None, w1) \<Rightarrow> (StatFailed srcFile, w1)
           | (Some st, w1) \<Rightarrow>
              (let fileSize = st_size st in
               case read_source srcFile fileSize w1 of
                 (Inl failed, w2) \<Rightarrow> (failed, w2)
               | (Inr buffer, w2) \<Rightarrow>
                  (case parseHexString hexStr of
                     Inl e \<Rightarrow> (Caught e, w2)
                   | Inr binData \<Rightarrow>
                      (case apply_patch pos fileSize binData buffer of
                         None \<Rightarrow> (OutOfBounds, w2)
                       | Some (buffer', written) \<Rightarrow>
                          (case write_dest dstFile buffer' fileSize w2 of
                             (Some failed, w3) \<Rightarrow> (failed, w3)
                           | (None, w3) \<Rightarrow>
                              (case utimes dstFile (to_timeval (st_atimespec st))
                                      (to_timeval (st_mtimespec st)) w3 of
                                 (False, w4) \<Rightarrow> (UtimesFailed dstFile, w4)
                               | (True, w4) \<Rightarrow> (Success, w4))))))))"

text \<open>\<open>argv\<close> holds the program name and the arguments; \<open>argc\<close> is its length.\<close>

definition main :: "string list \<Rightarrow> world \<Rightarrow> outcome \<times> world" where
  "main argv w =
     (if length argv \<noteq> 9 then (Usage, w)
      else if argv ! 1 \<noteq> ''-pos'' \<or> argv ! 3 \<noteq> ''-w'' \<or>
              argv ! 5 \<noteq> ''-r'' \<or> argv ! 7 \<noteq> ''-o''
      then (InvalidOrder, w)
      else main_try argv w)"

section \<open>Notions the properties are stated with\<close>

text \<open>A hexadecimal digit is one of the characters \<open>[0-9a-fA-F]\<close>.\<close>

definition is_hex_digit :: "char \<Rightarrow> bool" where
  "is_hex_digit c = (c \<in> set ''0123456789abcdefABCDEF'')"

text \<open>Upper case of the letters of a hexadecimal string.\<close>

definition upper_hex :: "char \<Rightarrow> char" where
  "upper_hex c = (case map_of (zip ''abcdef'' ''ABCDEF'') c of Some u \<Rightarrow> u | None \<Rightarrow> c)"

definition hexDigits :: string where
  "hexDigits = ''0123456789ABCDEF''"

fun index_of :: "'a \<Rightarrow> 'a list \<Rightarrow> nat" where
  "index_of x [] = 0"
| "index_of x (y # ys) = (if x = y then 0 else Suc (index_of x ys))"

text \<open>The value of a hexadecimal digit is its place among \<open>0123456789ABCDEF\<close>.\<close>

definition digit_value :: "char \<Rightarrow> nat" where
  "digit_value c = index_of (upper_hex c) hexDigits"

text \<open>
  The re-encoding of section 8 of the spec: a byte written as two hexadecimal digits, here
  in upper case, the digit of the high nibble first. The program has no encoder; these two
  definitions follow the spec's words and serve only to state the round trip.
\<close>

definition encode_byte :: "byte \<Rightarrow> string" where
  "encode_byte b = [hexDigits ! (unat b div 16), hexDigits ! (unat b mod 16)]"

definition encodeHex :: "byte list \<Rightarrow> string" where
  "encodeHex bs = concat (map encode_byte bs)"

text \<open>
  A base-10 integer in full: an optional sign followed by one or more decimal digits and
  nothing else.
\<close>

definition is_base10_integer :: "string \<Rightarrow> bool" where
  "is_base10_integer s =
     (let ds = (if s \<noteq> [] \<and> (hd s = CHR ''-'' \<or> hd s = CHR ''+'') then tl s else s)
      in ds \<noteq> [] \<and> list_all isdigit ds)"

text \<open>
  A run meets no refusal of the operating system: the source exists as \<open>f\<close> and can be
  opened and read, the destination can be created, takes all the bytes of the source's
  length, and accepts new times.
\<close>

definition io_succeeds :: "world \<Rightarrow> regular_file \<Rightarrow> string \<Rightarrow> string \<Rightarrow> bool" where
  "io_succeeds w f srcFile dstFile =
     (files w srcFile = Some f \<and> open_ok w srcFile \<and> read_ok w srcFile \<and>
      create_ok w dstFile \<and>
      (case write_limit w dstFile of None \<Rightarrow> True | Some k \<Rightarrow> length (content f) \<le> k) \<and>
      utimes_ok w dstFile)"

text \<open>The nanoseconds of a time reported by \<open>stat\<close> lie in one second.\<close>

definition valid_timespec :: "timespec \<Rightarrow> bool" where
  "valid_timespec ts = (0 \<le> tv_nsec ts \<and> tv_nsec ts < 1000000000)"

text \<open>A time rounded down to whole microseconds.\<close>

definition usec_floor :: "timespec \<Rightarrow> timespec" where
  "usec_floor ts = \<lparr>tv_sec = tv_sec ts, tv_nsec = tv_nsec ts - tv_nsec ts mod 1000\<rparr>"

text \<open>
  A world for concrete runs: one file \<open>a\<close> of four bytes, every operation permitted, a
  stream that holds up to 4096 bytes until it is closed.
\<close>

definition always :: "string \<Rightarrow> bool" where
  "always path = True"

definition unlimited :: "string \<Rightarrow> nat option" where
  "unlimited path = None"

definition held_up_to_4096 :: "nat \<Rightarrow> nat" where
  "held_up_to_4096 n = (if n \<le> 4096 then n else 0)"

definition demo_file :: regular_file where
  "demo_file = \<lparr>content = [0x10, 0x11, 0x12, 0x13],
                 atime = \<lparr>tv_sec = 100, tv_nsec = 123456789\<rparr>,
                 mtime = \<lparr>tv_sec = 50, tv_nsec = 999\<rparr>\<rparr>"

definition demo_world :: world where
  "demo_world = \<lparr>files = [''a'' \<mapsto> demo_file],
                  open_ok = always, read_ok = always, create_ok = always,
                  write_limit = unlimited, stream_held = held_up_to_4096, utimes_ok = always,
                  now = \<lparr>tv_sec = 1000, tv_nsec = 5\<rparr>, trace = []\<rparr>"

text \<open>The same world on a device that has no space left: the system takes no byte.\<close>

definition no_space :: "string \<Rightarrow> nat option" where
  "no_space path = Some 0"

definition full_world :: world where
  "full_world = demo_world\<lparr>write_limit := no_space\<rparr>"

section \<open>Hexadecimal digits and the decoding loop\<close>

lemma or16: 
  assumes "0 \<le> lo" "lo < 16" shows "push_bit 4 hi OR lo = 16 * hi + (lo::int)"
proof -
  have tb: "take_bit 4 lo = lo" using assms by (simp add: take_bit_int_eq_self)
  have "\<not> bit (push_bit 4 hi) n \<or> \<not> bit lo n" for n
  proof (cases "n < 4")
    case True
    then show ?thesis by (simp add: bit_push_bit_iff)
  next
    case False
    have "bit lo n = bit (take_bit 4 lo) n" by (simp add: tb)
    also have "\<dots> = False" using False by (simp add: bit_take_bit_iff)
    finally show ?thesis by simp
  qed
  then have "push_bit 4 hi + lo = push_bit 4 hi OR lo" by (rule disjunctive_add)
  then show ?thesis by (simp add: push_bit_eq_mult)
qed

lemma hexVal_hex: "is_hex_digit c \<Longrightarrow> hexVal c = Inr (int (digit_value c))"
  unfolding is_hex_digit_def
  by (auto simp: hexVal_def digit_value_def upper_hex_def hexDigits_def)

lemma char_in_codes:
  assumes "(of_char c :: int) \<in> of_char ` set cs"
  shows "c \<in> set cs"
proof -
  from assms obtain d where "d \<in> set cs" "(of_char c :: int) = of_char d" by auto
  then show ?thesis by simp
qed

lemma digit_chars:
  assumes "48 \<le> (of_char c :: int)" "(of_char c :: int) \<le> 57"
  shows "c \<in> set ''0123456789''"
proof (rule char_in_codes)
  define n where "n = (of_char c :: int)"
  have "n = 48 \<or> n = 49 \<or> n = 50 \<or> n = 51 \<or> n = 52 \<or> n = 53 \<or> n = 54 \<or> n = 55 \<or> n = 56 \<or> n = 57"
    using assms unfolding n_def by arith
  then show "(of_char c :: int) \<in> of_char ` set ''0123456789''"
    unfolding n_def by auto
qed

lemma upper_chars:
  assumes "65 \<le> (of_char c :: int)" "(of_char c :: int) \<le> 70"
  shows "c \<in> set ''ABCDEF''"
proof (rule char_in_codes)
  define n where "n = (of_char c :: int)"
  have "n = 65 \<or> n = 66 \<or> n = 67 \<or> n = 68 \<or> n = 69 \<or> n = 70"
    using assms unfolding n_def by arith
  then show "(of_char c :: int) \<in> of_char ` set ''ABCDEF''"
    unfolding n_def by auto
qed

lemma lower_chars:
  assumes "97 \<le> (of_char c :: int)" "(of_char c :: int) \<le> 102"
  shows "c \<in> set ''abcdef''"
proof (rule char_in_codes)
  define n where "n = (of_char c :: int)"
  have "n = 97 \<or> n = 98 \<or> n = 99 \<or> n = 100 \<or> n = 101 \<or> n = 102"
    using assms unfolding n_def by arith
  then show "(of_char c :: int) \<in> of_char ` set ''abcdef''"
    unfolding n_def by auto
qed

lemma hexVal_not_hex:
  assumes "\<not> is_hex_digit c"
  shows "hexVal c = Inl (RuntimeError (''Invalid hex character: '' @ [c]))"
proof -
  have 1: "\<not> (48 \<le> (of_char c :: int) \<and> (of_char c :: int) \<le> 57)"
    using digit_chars[of c] assms by (auto simp: is_hex_digit_def)
  have 2: "\<not> (65 \<le> (of_char c :: int) \<and> (of_char c :: int) \<le> 70)"
    using upper_chars[of c] assms by (auto simp: is_hex_digit_def)
  have 3: "\<not> (97 \<le> (of_char c :: int) \<and> (of_char c :: int) \<le> 102)"
    using lower_chars[of c] assms by (auto simp: is_hex_digit_def)
  show ?thesis using 1 2 3 by (simp add: hexVal_def Let_def)
qed

lemma digit_value_lt: "is_hex_digit c \<Longrightarrow> digit_value c < 16"
  unfolding is_hex_digit_def
  by (auto simp: digit_value_def upper_hex_def hexDigits_def)


lemma hexVal_Inr:
  assumes "hexVal c = Inr v"
  shows "is_hex_digit c \<and> v = int (digit_value c)"
proof (cases "is_hex_digit c")
  case True
  then show ?thesis using assms by (simp add: hexVal_hex)
next
  case False
  then show ?thesis using assms by (simp add: hexVal_not_hex)
qed

lemma unat_byteVal:
  assumes "is_hex_digit a" "is_hex_digit b"
  shows "unat (byteVal (int (digit_value a)) (int (digit_value b))) = 16 * digit_value a + digit_value b"
proof -
  have lt: "digit_value a < 16" "digit_value b < 16" using assms by (simp_all add: digit_value_lt)
  have "push_bit 4 (int (digit_value a)) OR int (digit_value b)
             = 16 * int (digit_value a) + int (digit_value b)"
    using lt by (intro or16) simp_all
  also have "\<dots> = int (16 * digit_value a + digit_value b)" by simp
  finally have "byteVal (int (digit_value a)) (int (digit_value b))
             = word_of_nat (16 * digit_value a + digit_value b)"
    unfolding byteVal_def by (simp only: of_int_of_nat_eq)
  moreover have "16 * digit_value a + digit_value b < 256" using lt by arith
  ultimately show ?thesis by (simp only: unat_of_nat) simp
qed

lemma parse_loop_ok:
  assumes "even (length s)" "even i" "\<forall>k<length s. i \<le> k \<longrightarrow> is_hex_digit (s ! k)"
  shows "parse_loop s i acc =
         Inr (acc @ map (\<lambda>k. byteVal (int (digit_value (s ! (2 * k)))) (int (digit_value (s ! (2 * k + 1)))))
                        [i div 2 ..< length s div 2])"
  using assms
proof (induction s i acc rule: parse_loop.induct)
  case (1 s i acc)
  show ?case
  proof (cases "i < length s")
    case False
    then have "length s div 2 \<le> i div 2" by simp
    then show ?thesis using False by (subst parse_loop.simps) simp
  next
    case True
    with "1.prems" have i1: "i + 1 < length s" by presburger
    have ha: "is_hex_digit (s ! i)" and hb: "is_hex_digit (s ! (i + 1))"
      using "1.prems"(3) True i1 by auto
    have va: "hexVal (str_at s i) = Inr (int (digit_value (s ! i)))"
      using True ha by (simp add: str_at_def hexVal_hex)
    have vb: "hexVal (str_at s (i + 1)) = Inr (int (digit_value (s ! (i + 1))))"
      using i1 hb by (simp add: str_at_def hexVal_hex)
    have IH: "parse_loop s (i + 2) (acc @ [byteVal (int (digit_value (s ! i))) (int (digit_value (s ! (i + 1))))])
       = Inr ((acc @ [byteVal (int (digit_value (s ! i))) (int (digit_value (s ! (i + 1))))]) @
           map (\<lambda>k. byteVal (int (digit_value (s ! (2 * k)))) (int (digit_value (s ! (2 * k + 1)))))
               [(i + 2) div 2 ..< length s div 2])"
      using "1.prems" by (intro "1.IH"[OF True va vb]) auto
    have lt: "i div 2 < length s div 2" using True "1.prems"(1,2) by presburger
    have i2: "2 * (i div 2) = i" using "1.prems"(2) by simp
    have upt: "[i div 2 ..< length s div 2] = (i div 2) # [(i + 2) div 2 ..< length s div 2]"
      using lt by (simp add: upt_conv_Cons)
    have "parse_loop s i acc =
          parse_loop s (i + 2) (acc @ [byteVal (int (digit_value (s ! i))) (int (digit_value (s ! (i + 1))))])"
      by (subst parse_loop.simps) (simp only: True if_True va vb sum.case)
    also note IH
    finally show ?thesis by (simp add: upt i2)
  qed
qed

lemma parse_loop_bad:
  assumes "even (length s)" "even i" "k < length s" "i \<le> k" "\<not> is_hex_digit (s ! k)"
  shows "\<exists>e. parse_loop s i acc = Inl e"
  using assms
proof (induction s i acc rule: parse_loop.induct)
  case (1 s i acc)
  from "1.prems" have True: "i < length s" by simp
  with "1.prems" have i1: "i + 1 < length s" by presburger
  show ?case
  proof (cases "hexVal (str_at s i)")
    case (Inl e)
    then show ?thesis using True by (subst parse_loop.simps) simp
  next
    case va: (Inr hi)
    show ?thesis
    proof (cases "hexVal (str_at s (i + 1))")
      case (Inl e)
      then show ?thesis using True va by (subst parse_loop.simps) simp
    next
      case vb: (Inr lo)
      have "is_hex_digit (s ! i)" using hexVal_Inr[OF va] True by (simp add: str_at_def)
      moreover have "is_hex_digit (s ! (i + 1))" using hexVal_Inr[OF vb] i1 by (simp add: str_at_def)
      ultimately have "k \<noteq> i" "k \<noteq> i + 1" using "1.prems"(5) by auto
      then have "i + 2 \<le> k" using "1.prems"(4) by simp
      then have "\<exists>e. parse_loop s (i + 2) (acc @ [byteVal hi lo]) = Inl e"
        using "1.prems" by (intro "1.IH"[OF True va vb]) auto
      then show ?thesis using True va vb by (subst parse_loop.simps) simp
    qed
  qed
qed

lemma hexDigits_nth: "is_hex_digit c \<Longrightarrow> hexDigits ! digit_value c = upper_hex c"
  unfolding is_hex_digit_def
  by (auto simp: digit_value_def upper_hex_def hexDigits_def)

lemma encode_byte_pair:
  assumes "is_hex_digit a" "is_hex_digit b"
  shows "encode_byte (byteVal (int (digit_value a)) (int (digit_value b))) = [upper_hex a, upper_hex b]"
proof -
  have lt: "digit_value a < 16" "digit_value b < 16" using assms by (simp_all add: digit_value_lt)
  have d: "(16 * digit_value a + digit_value b) div 16 = digit_value a"
    and m: "(16 * digit_value a + digit_value b) mod 16 = digit_value b"
    using lt by simp_all
  have "encode_byte (byteVal (int (digit_value a)) (int (digit_value b))) =
        [hexDigits ! digit_value a, hexDigits ! digit_value b]"
    by (simp only: encode_byte_def unat_byteVal[OF assms] d m)
  then show ?thesis by (simp only: hexDigits_nth assms)
qed

lemma encodeHex_append: "encodeHex (xs @ ys) = encodeHex xs @ encodeHex ys"
  by (simp add: encodeHex_def)

lemma parse_loop_roundtrip:
  assumes "parse_loop s i acc = Inr bs" "even (length s)" "even i"
  shows "encodeHex bs = encodeHex acc @ map upper_hex (drop i s)"
  using assms
proof (induction s i acc rule: parse_loop.induct)
  case (1 s i acc)
  show ?case
  proof (cases "i < length s")
    case False
    then show ?thesis using "1.prems"(1) by (subst (asm) parse_loop.simps) auto
  next
    case True
    with "1.prems" have i1: "i + 1 < length s" by presburger
    from "1.prems"(1) True obtain hi lo where
      va: "hexVal (str_at s i) = Inr hi" and vb: "hexVal (str_at s (i + 1)) = Inr lo"
      and rec: "parse_loop s (i + 2) (acc @ [byteVal hi lo]) = Inr bs"
      by (subst (asm) parse_loop.simps) (auto split: sum.splits)
    have a: "is_hex_digit (s ! i)" "hi = int (digit_value (s ! i))"
      using hexVal_Inr[OF va] True by (simp_all add: str_at_def)
    have b: "is_hex_digit (s ! (i + 1))" "lo = int (digit_value (s ! (i + 1)))"
      using hexVal_Inr[OF vb] i1 by (simp_all add: str_at_def)
    have "encodeHex bs = encodeHex (acc @ [byteVal hi lo]) @ map upper_hex (drop (i + 2) s)"
      using "1.prems" by (intro "1.IH"[OF True va vb rec]) auto
    moreover have "encodeHex [byteVal hi lo] = [upper_hex (s ! i), upper_hex (s ! (i + 1))]"
      using encode_byte_pair[OF a(1) b(1)] by (simp add: encodeHex_def a b)
    moreover have "drop i s = s ! i # s ! (i + 1) # drop (i + 2) s"
      using True i1 by (simp add: Cons_nth_drop_Suc)
    ultimately show ?thesis by (simp add: encodeHex_append)
  qed
qed


lemma secureZero_below: "a < p \<Longrightarrow> secureZero p len mem a = mem a"
  by (induction len arbitrary: p mem) auto

lemma secureZero_inside: "p \<le> a \<Longrightarrow> a < p + len \<Longrightarrow> secureZero p len mem a = 0"
proof (induction len arbitrary: p mem)
  case 0
  then show ?case by simp
next
  case (Suc len)
  show ?case
  proof (cases "a = p")
    case True
    then show ?thesis by (simp add: secureZero_below)
  next
    case False
    with Suc.prems have "p + 1 \<le> a" "a < (p + 1) + len" by auto
    then show ?thesis using Suc.IH[of "p + 1"] by simp
  qed
qed

section \<open>The patch loop\<close>

lemma swrap64_id:
  assumes "- (2 ^ 63) \<le> x" "x < 2 ^ 63"
  shows "swrap 64 x = x"
proof -
  have "0 \<le> x + 2 ^ 63" "x + 2 ^ 63 < 2 ^ 64" using assms by simp_all
  then have "(x + 2 ^ 63) mod 2 ^ 64 = x + 2 ^ 63" by (rule mod_pos_pos_trivial)
  then show ?thesis by (simp add: swrap_def)
qed

lemma dstPos_exact:
  assumes "length buffer < 2 ^ 63" "p + i \<le> length buffer"
  shows "swrap 64 (int p + swrap 64 (int i)) = int (p + i)"
proof -
  have b: "int (length buffer) < 2 ^ 63" using assms(1) by (simp add: of_nat_less_iff[of _ "2 ^ 63", simplified])
  have "int i < 2 ^ 63" "int p + int i < 2 ^ 63" using b assms(2) by linarith+
  then show ?thesis by (simp add: swrap64_id)
qed

lemma patch_loop_length:
  "patch_loop pos fileSize binData i (buffer, written) = Some (b', w') \<Longrightarrow> length b' = length buffer"
proof (induction "length binData - i" arbitrary: i buffer written)
  case 0
  then show ?case by (subst (asm) patch_loop.simps) simp
next
  case (Suc n)
  then have lt: "i < length binData" by simp
  define d where "d = swrap 64 (pos + swrap 64 (int i))"
  show ?case
  proof (cases "d \<ge> fileSize")
    case True
    then show ?thesis using Suc.prems lt
      by (subst (asm) patch_loop.simps) (simp add: d_def Let_def)
  next
    case False
    then have ok: "0 \<le> d \<and> nat d < length buffer"
      and rec: "patch_loop pos fileSize binData (i + 1) (buffer[nat d := binData ! i], written @ [d]) = Some (b', w')"
      using Suc.prems lt
      by (subst (asm) patch_loop.simps, simp add: d_def Let_def split: if_splits)+
    have "n = length binData - (i + 1)" using Suc.hyps(2) by simp
    from Suc.hyps(1)[OF this rec] show ?thesis by simp
  qed
qed

lemma patch_loop_spec:
  assumes "fileSize = int (length buffer)" "length buffer < 2 ^ 63" "p + i \<le> length buffer"
  shows "\<exists>b'. patch_loop (int p) fileSize binData i (buffer, written) =
            Some (b', written @ map (\<lambda>k. int (p + k)) [i ..< min (length binData) (length buffer - p)]) \<and>
          length b' = length buffer \<and>
          (\<forall>j<length buffer. b' ! j =
             (if p + i \<le> j \<and> j < p + length binData then binData ! (j - p) else buffer ! j))"
  using assms
proof (induction "length binData - i" arbitrary: i buffer written)
  case 0
  then have ge: "length binData \<le> i" by simp
  then have "patch_loop (int p) fileSize binData i (buffer, written) = Some (buffer, written)"
    by (subst patch_loop.simps) simp
  moreover have "[i ..< min (length binData) (length buffer - p)] = []" using ge by simp
  ultimately show ?case using ge by auto
next
  case (Suc n)
  then have lt: "i < length binData" by simp
  have d: "swrap 64 (int p + swrap 64 (int i)) = int (p + i)"
    using Suc.prems(2,3) by (rule dstPos_exact)
  show ?case
  proof (cases "p + i = length buffer")
    case True
    then have "patch_loop (int p) fileSize binData i (buffer, written) = Some (buffer, written)"
      using lt Suc.prems(1) by (subst patch_loop.simps) (simp add: d Let_def)
    moreover have "[i ..< min (length binData) (length buffer - p)] = []" using True by simp
    ultimately show ?thesis using True by auto
  next
    case False
    with Suc.prems(3) have in_b: "p + i < length buffer" by simp
    let ?buf = "buffer[p + i := binData ! i]"
    have step: "patch_loop (int p) fileSize binData i (buffer, written) =
                patch_loop (int p) fileSize binData (i + 1) (?buf, written @ [int (p + i)])"
      using lt in_b Suc.prems(1) by (subst patch_loop.simps) (simp add: d Let_def nat_int_add)
    have "n = length binData - (i + 1)" using Suc.hyps(2) by simp
    moreover have "fileSize = int (length ?buf)" "length ?buf < 2 ^ 63" "p + (i + 1) \<le> length ?buf"
      using Suc.prems in_b by simp_all
    ultimately obtain b' where
      r: "patch_loop (int p) fileSize binData (i + 1) (?buf, written @ [int (p + i)]) =
            Some (b', (written @ [int (p + i)]) @
                      map (\<lambda>k. int (p + k)) [i + 1 ..< min (length binData) (length ?buf - p)])"
      and l: "length b' = length ?buf"
      and v: "\<forall>j<length ?buf. b' ! j =
             (if p + (i + 1) \<le> j \<and> j < p + length binData then binData ! (j - p) else ?buf ! j)"
      using Suc.hyps(1)[of "i + 1" ?buf "written @ [int (p + i)]"] by blast
    have "i < min (length binData) (length buffer - p)" using lt in_b by simp
    then have upt: "[i ..< min (length binData) (length buffer - p)] =
                    i # [i + 1 ..< min (length binData) (length buffer - p)]"
      by (simp add: upt_conv_Cons)
    have tr: "patch_loop (int p) fileSize binData i (buffer, written) =
            Some (b', written @ map (\<lambda>k. int (p + k)) [i ..< min (length binData) (length buffer - p)])"
      unfolding step r upt by simp
    have vals: "b' ! j = (if p + i \<le> j \<and> j < p + length binData then binData ! (j - p) else buffer ! j)"
      if "j < length buffer" for j
    proof (cases "j = p + i")
      case True
      then show ?thesis using v that lt in_b by simp
    next
      case False
      then show ?thesis using v that by auto
    qed
    show ?thesis using tr l vals by auto
  qed
qed

lemma apply_patch_length:
  "apply_patch pos fileSize binData buffer = Some (b', w') \<Longrightarrow> length b' = length buffer"
  by (auto simp: apply_patch_def split: if_splits dest: patch_loop_length)

lemma apply_patch_outside:
  "pos < 0 \<or> fileSize \<le> pos \<Longrightarrow> apply_patch pos fileSize binData buffer = Some (buffer, [])"
  by (auto simp: apply_patch_def)

lemma apply_patch_inside:
  assumes "fileSize = int (length buffer)" "length buffer < 2 ^ 63" "0 \<le> pos" "pos < fileSize"
  shows "\<exists>b'. apply_patch pos fileSize binData buffer =
            Some (b', map (\<lambda>k. pos + int k) [0 ..< min (length binData) (length buffer - nat pos)]) \<and>
          length b' = length buffer \<and>
          (\<forall>j<length buffer. b' ! j =
             (if nat pos \<le> j \<and> j < nat pos + length binData then binData ! (j - nat pos) else buffer ! j))"
proof -
  have p: "pos = int (nat pos)" using assms(3) by simp
  have "nat pos + 0 \<le> length buffer" using assms by linarith
  from patch_loop_spec[OF assms(1,2) this, of binData "[]"]
  show ?thesis using assms(3,4) by (simp add: apply_patch_def)
qed

section \<open>Runs of main\<close>

lemma read_source_ok:
  assumes "files w src = Some f" "open_ok w src" "read_ok w src"
  shows "read_source src (int (length (content f))) w = (Inr (content f), w\<lparr>trace := trace w @ [OpenRead src]\<rparr>)"
  using assms by (simp add: read_source_def Let_def)

lemma stat_file_ok:
  assumes "files w src = Some f"
  shows "stat_file src w = (Some \<lparr>st_size = int (length (content f)), st_atimespec = atime f, st_mtimespec = mtime f\<rparr>,
                            w\<lparr>trace := trace w @ [Stat src]\<rparr>)"
  using assms by (simp add: stat_file_def Let_def)

lemma to_timeval_valid:
  assumes "valid_timespec ts"
  shows "\<lparr>tv_sec = tvl_sec (to_timeval ts), tv_nsec = tv_usec (to_timeval ts) * 1000\<rparr> = usec_floor ts"
proof -
  define n where "n = tv_nsec ts"
  have n: "0 \<le> n" "n < 1000000000" using assms by (simp_all add: valid_timespec_def n_def)
  then have c: "c_div n 1000 = n div 1000" by (simp add: c_div_def sgn_if)
  have "0 \<le> n div 1000" "n div 1000 < 1000000" using n by simp_all
  then have "0 \<le> n div 1000 + 2 ^ 31" "n div 1000 + 2 ^ 31 < 2 ^ 32" by simp_all
  then have "(n div 1000 + 2 ^ 31) mod 2 ^ 32 = n div 1000 + 2 ^ 31" by (rule mod_pos_pos_trivial)
  then have w: "swrap 32 (n div 1000) = n div 1000" by (simp add: swrap_def)
  have "n div 1000 * 1000 = n - n mod 1000" by (simp add: minus_mod_eq_div_mult)
  then show ?thesis by (simp add: to_timeval_def usec_floor_def c w n_def[symmetric])
qed

lemma bytes_taken_trace [simp]: "bytes_taken (w\<lparr>trace := t\<rparr>) = bytes_taken w"
  by (simp add: fun_eq_iff bytes_taken_def)

lemma bytes_passed_trace [simp]: "bytes_passed (w\<lparr>trace := t\<rparr>) = bytes_passed w"
  by (simp add: fun_eq_iff bytes_passed_def)

lemma bytes_passed_le: "bytes_passed w n \<le> n"
  by (simp add: bytes_passed_def)

lemma main_try_run_gen:
  assumes f: "files w src = Some f" and o: "open_ok w src" and r: "read_ok w src"
    and c: "create_ok w dst" and u: "utimes_ok w dst"
    and rep: "\<not> bytes_taken w dst (length (content f)) < bytes_passed w (length (content f))"
    and len: "length hexStr \<le> 1000"
    and hex: "parseHexString hexStr = Inr bin"
    and patch: "apply_patch (strtol posArg) (int (length (content f))) bin (content f) = Some (b', wr)"
  shows "main [prog, ''-pos'', posArg, ''-w'', hexStr, ''-r'', src, ''-o'', dst] w =
     (Success,
      w\<lparr>files := (files w)(dst \<mapsto>
           \<lparr>content = take (bytes_taken w dst (length (content f))) b',
            atime = \<lparr>tv_sec = tvl_sec (to_timeval (atime f)), tv_nsec = tv_usec (to_timeval (atime f)) * 1000\<rparr>,
            mtime = \<lparr>tv_sec = tvl_sec (to_timeval (mtime f)), tv_nsec = tv_usec (to_timeval (mtime f)) * 1000\<rparr>\<rparr>),
         trace := trace w @ [Stat src, OpenRead src, OpenTrunc dst,
                             WriteBytes dst (bytes_taken w dst (length (content f))), Utimes dst]\<rparr>)"
proof -
  let ?n = "bytes_taken w dst (length (content f))"
  let ?w1 = "w\<lparr>trace := trace w @ [Stat src]\<rparr>"
  let ?w2 = "w\<lparr>trace := trace w @ [Stat src, OpenRead src]\<rparr>"
  let ?w3 = "w\<lparr>files := (files w)(dst \<mapsto> \<lparr>content = take ?n b',
                     atime = (case files w dst of None \<Rightarrow> now w | Some f \<Rightarrow> atime f), mtime = now w\<rparr>),
                trace := trace w @ [Stat src, OpenRead src, OpenTrunc dst, WriteBytes dst ?n]\<rparr>"
  have len': "\<not> 1000 < length hexStr" using len by simp
  have s1: "stat_file src w = (Some \<lparr>st_size = int (length (content f)), st_atimespec = atime f, st_mtimespec = mtime f\<rparr>, ?w1)"
    using f by (rule stat_file_ok)
  have s2: "read_source src (int (length (content f))) ?w1 = (Inr (content f), ?w2)"
    using read_source_ok[of ?w1 src f] f o r by simp
  have s3: "write_dest dst b' (int (length (content f))) ?w2 = (None, ?w3)"
    using c rep by (simp add: write_dest_def Let_def cong: option.case_cong)
  have s4: "utimes dst t0 t1 ?w3 =
     (True, ?w3\<lparr>files := (files ?w3)(dst \<mapsto>
               \<lparr>content = take ?n b', atime = \<lparr>tv_sec = tvl_sec t0, tv_nsec = tv_usec t0 * 1000\<rparr>,
                mtime = \<lparr>tv_sec = tvl_sec t1, tv_nsec = tv_usec t1 * 1000\<rparr>\<rparr>),
              trace := trace ?w3 @ [Utimes dst]\<rparr>)" for t0 t1
    using u by (simp add: utimes_def Let_def)
  show ?thesis
    unfolding main_def main_try_def
    by (simp add: len' s1 s2 hex patch s3 s4 Let_def)
qed

lemma main_try_run:
  assumes io: "io_succeeds w f src dst" and len: "length hexStr \<le> 1000"
    and hex: "parseHexString hexStr = Inr bin"
    and patch: "apply_patch (strtol posArg) (int (length (content f))) bin (content f) = Some (b', wr)"
  shows "main [prog, ''-pos'', posArg, ''-w'', hexStr, ''-r'', src, ''-o'', dst] w =
     (Success,
      w\<lparr>files := (files w)(dst \<mapsto>
           \<lparr>content = b',
            atime = \<lparr>tv_sec = tvl_sec (to_timeval (atime f)), tv_nsec = tv_usec (to_timeval (atime f)) * 1000\<rparr>,
            mtime = \<lparr>tv_sec = tvl_sec (to_timeval (mtime f)), tv_nsec = tv_usec (to_timeval (mtime f)) * 1000\<rparr>\<rparr>),
         trace := trace w @ [Stat src, OpenRead src, OpenTrunc dst, WriteBytes dst (length (content f)), Utimes dst]\<rparr>)"
proof -
  have f: "files w src = Some f" and o: "open_ok w src" and r: "read_ok w src"
    and c: "create_ok w dst" and u: "utimes_ok w dst"
    and l: "case write_limit w dst of None \<Rightarrow> True | Some k \<Rightarrow> length (content f) \<le> k"
    using io by (simp_all add: io_succeeds_def)
  have lb: "length b' = length (content f)" using patch by (rule apply_patch_length)
  have t: "bytes_taken w dst (length (content f)) = length (content f)"
    using l by (simp add: bytes_taken_def split: option.splits)
  have rep: "\<not> bytes_taken w dst (length (content f)) < bytes_passed w (length (content f))"
    unfolding t using bytes_passed_le[of w "length (content f)"] by simp
  show ?thesis
    unfolding main_try_run_gen[OF f o r c u rep len hex patch] t by (simp add: lb)
qed

lemma list9:
  assumes "length xs = 9"
  shows "xs = [xs ! 0, xs ! 1, xs ! 2, xs ! 3, xs ! 4, xs ! 5, xs ! 6, xs ! 7, xs ! 8]"
proof (rule nth_equalityI)
  show "length xs = length [xs ! 0, xs ! 1, xs ! 2, xs ! 3, xs ! 4, xs ! 5, xs ! 6, xs ! 7, xs ! 8]"
    using assms by simp
next
  fix i assume "i < length xs"
  then have "i \<in> {0, 1, 2, 3, 4, 5, 6, 7, 8}" using assms by auto
  then show "xs ! i = [xs ! 0, xs ! 1, xs ! 2, xs ! 3, xs ! 4, xs ! 5, xs ! 6, xs ! 7, xs ! 8] ! i"
    by auto
qed

lemma main_usage:
  assumes "\<not> (\<exists>prog posArg hexStr src dst.
              argv = [prog, ''-pos'', posArg, ''-w'', hexStr, ''-r'', src, ''-o'', dst])"
  shows "main argv w = (Usage, w) \<or> main argv w = (InvalidOrder, w)"
proof (cases "length argv = 9")
  case False
  then show ?thesis by (simp add: main_def)
next
  case True
  have "argv ! 1 \<noteq> ''-pos'' \<or> argv ! 3 \<noteq> ''-w'' \<or> argv ! 5 \<noteq> ''-r'' \<or> argv ! 7 \<noteq> ''-o''"
  proof (rule ccontr)
    assume "\<not> ?thesis"
    then have "argv = [argv ! 0, ''-pos'', argv ! 2, ''-w'', argv ! 4, ''-r'', argv ! 6, ''-o'', argv ! 8]"
      using list9[OF True] by simp
    then show False using assms by blast
  qed
  then show ?thesis using True by (simp add: main_def)
qed

lemma main_wellformed:
  "main [prog, ''-pos'', posArg, ''-w'', hexStr, ''-r'', src, ''-o'', dst] w =
   main_try [prog, ''-pos'', posArg, ''-w'', hexStr, ''-r'', src, ''-o'', dst] w"
  by (simp add: main_def)

lemma main_pos_cong:
  assumes "strtol a = strtol b"
  shows "main [prog, ''-pos'', a, ''-w'', hexStr, ''-r'', src, ''-o'', dst] w =
         main [prog, ''-pos'', b, ''-w'', hexStr, ''-r'', src, ''-o'', dst] w"
  using assms by (simp add: main_def main_try_def)

lemma strtol_no_digits:
  assumes "snd (strtol_subject nptr) = []"
  shows "strtol nptr = 0"
proof -
  obtain neg where "strtol_subject nptr = (neg, [])" using assms by (cases "strtol_subject nptr") simp
  then show ?thesis by (simp add: strtol_def LONG_MIN_def LONG_MAX_def)
qed

lemma strtol_zero: "strtol ''0'' = 0"
  by (simp add: strtol_def strtol_subject_def isspace_def isdigit_def LONG_MAX_def)

lemma read_source_fails:
  "read_source src n w = (Inl out, w') \<Longrightarrow> out = OpenFailed src \<or> out = ReadFailed src"
  by (auto simp: read_source_def Let_def split: option.splits if_splits)

lemma write_dest_fails:
  "write_dest dst b n w = (Some out, w') \<Longrightarrow> out = CreateFailed dst \<or> out = WriteFailed dst"
  by (auto simp: write_dest_def Let_def split: option.splits if_splits)

lemma main_try_not_usage:
  "fst (main_try argv w) \<noteq> Usage \<and> fst (main_try argv w) \<noteq> InvalidOrder"
  unfolding main_try_def Let_def
  by (auto split: prod.splits option.splits sum.splits bool.splits
           dest: read_source_fails write_dest_fails)

section \<open>Successful runs\<close>

lemma stat_file_Some:
  "stat_file src w = (Some st, w1) \<Longrightarrow>
   \<exists>f. files w src = Some f \<and> st = \<lparr>st_size = int (length (content f)), st_atimespec = atime f, st_mtimespec = mtime f\<rparr>
       \<and> w1 = w\<lparr>trace := trace w @ [Stat src]\<rparr>"
  by (auto simp: stat_file_def Let_def split: option.splits)

lemma read_source_Inr:
  "read_source src n w = (Inr buffer, w2) \<Longrightarrow> open_ok w src \<and> read_ok w src"
  by (auto simp: read_source_def Let_def split: option.splits if_splits)

lemma write_dest_None:
  "write_dest dst b n w = (None, w3) \<Longrightarrow>
   create_ok w dst \<and> \<not> bytes_taken w dst (nat n) < bytes_passed w (nat n)"
  by (auto simp: write_dest_def Let_def split: if_splits)

lemma utimes_True:
  "utimes dst t0 t1 w = (True, w4) \<Longrightarrow> utimes_ok w dst"
  by (auto simp: utimes_def Let_def split: option.splits if_splits)

lemma write_dest_frame:
  "write_dest dst b n w = (r, w3) \<Longrightarrow> utimes_ok w3 = utimes_ok w"
  by (auto simp: write_dest_def Let_def split: option.splits if_splits)

lemma main_try_Success_D:
  assumes "fst (main_try argv w) = Success"
  shows "\<exists>f bin b' wr. files w (argv ! 6) = Some f \<and> open_ok w (argv ! 6) \<and> read_ok w (argv ! 6) \<and>
           create_ok w (argv ! 8) \<and> utimes_ok w (argv ! 8) \<and>
           \<not> bytes_taken w (argv ! 8) (length (content f)) < bytes_passed w (length (content f)) \<and>
           length (argv ! 4) \<le> 1000 \<and> parseHexString (argv ! 4) = Inr bin \<and>
           apply_patch (strtol (argv ! 2)) (int (length (content f))) bin (content f) = Some (b', wr)"
proof -
  let ?src = "argv ! 6" and ?dst = "argv ! 8"
  have len: "length (argv ! 4) \<le> 1000"
    using assms by (auto simp: main_try_def Let_def split: if_splits)
  obtain st w1 where s1: "stat_file ?src w = (Some st, w1)"
    using assms len by (auto simp: main_try_def Let_def split: prod.splits option.splits)
  then obtain f where f: "files w ?src = Some f"
    and st: "st = \<lparr>st_size = int (length (content f)), st_atimespec = atime f, st_mtimespec = mtime f\<rparr>"
    and w1: "w1 = w\<lparr>trace := trace w @ [Stat ?src]\<rparr>"
    using stat_file_Some by blast
  obtain buffer w2 where s2: "read_source ?src (int (length (content f))) w1 = (Inr buffer, w2)"
    using assms len s1 st
    by (auto simp: main_try_def Let_def split: prod.splits sum.splits dest: read_source_fails)
  have or: "open_ok w ?src \<and> read_ok w ?src" using read_source_Inr[OF s2] by (simp add: w1)
  have buf: "buffer = content f" and w2: "w2 = w\<lparr>trace := trace w @ [Stat ?src, OpenRead ?src]\<rparr>"
    using s2 f or by (auto simp: read_source_def Let_def w1)
  obtain bin where hex: "parseHexString (argv ! 4) = Inr bin"
    using assms len s1 st s2
    by (auto simp: main_try_def Let_def split: sum.splits)
  obtain b' wr where patch: "apply_patch (strtol (argv ! 2)) (int (length (content f))) bin (content f) = Some (b', wr)"
    using assms len s1 st s2 hex buf
    by (auto simp: main_try_def Let_def split: option.splits)
  obtain w3 where s3: "write_dest ?dst b' (int (length (content f))) w2 = (None, w3)"
    using assms len s1 st s2 hex buf patch
    by (auto simp: main_try_def Let_def split: prod.splits option.splits dest: write_dest_fails)
  have cw: "create_ok w ?dst \<and>
            \<not> bytes_taken w ?dst (length (content f)) < bytes_passed w (length (content f))"
    using write_dest_None[OF s3] by (simp add: w2)
  obtain w4 where s4: "utimes ?dst (to_timeval (atime f)) (to_timeval (mtime f)) w3 = (True, w4)"
    using assms len s1 st s2 hex buf patch s3
    by (auto simp: main_try_def Let_def split: prod.splits bool.splits)
  have "utimes_ok w ?dst" using utimes_True[OF s4] write_dest_frame[OF s3] by (simp add: w2)
  then show ?thesis using f or cw len hex patch by blast
qed

lemma main_Success_D:
  assumes "fst (main argv w) = Success"
  shows "\<exists>prog posArg hexStr src dst f bin b' wr.
           argv = [prog, ''-pos'', posArg, ''-w'', hexStr, ''-r'', src, ''-o'', dst] \<and>
           files w src = Some f \<and> open_ok w src \<and> read_ok w src \<and> create_ok w dst \<and> utimes_ok w dst \<and>
           \<not> bytes_taken w dst (length (content f)) < bytes_passed w (length (content f)) \<and>
           length hexStr \<le> 1000 \<and> parseHexString hexStr = Inr bin \<and>
           apply_patch (strtol posArg) (int (length (content f))) bin (content f) = Some (b', wr)"
proof -
  have wf: "\<exists>prog posArg hexStr src dst. argv = [prog, ''-pos'', posArg, ''-w'', hexStr, ''-r'', src, ''-o'', dst]"
    using assms main_usage[of argv w] by (rule_tac ccontr) auto
  then obtain prog posArg hexStr src dst where
    argv: "argv = [prog, ''-pos'', posArg, ''-w'', hexStr, ''-r'', src, ''-o'', dst]" by blast
  have "fst (main_try argv w) = Success" using assms unfolding argv main_wellformed .
  from main_try_Success_D[OF this] show ?thesis unfolding argv by simp
qed

lemma parse_FF: "parseHexString ''FF'' = Inr [0xFF]"
  by code_simp

lemma parse_AABB: "parseHexString ''AABB'' = Inr [0xAA, 0xBB]"
  by code_simp

lemma strtol_examples: "strtol ''3'' = 3" "strtol ''1x'' = 1" "strtol ''abc'' = 0" "strtol ''4'' = 4" "strtol ''-1'' = -1"
  by code_simp+

lemma demo_io: "io_succeeds demo_world demo_file ''a'' ''b''"
  by (simp add: io_succeeds_def demo_world_def always_def unlimited_def)

section \<open>Properties of the patch\<close>

text \<open>
  C1. When the offset parsed from \<open>-pos\<close> satisfies \<open>0 \<le> offset < file_size\<close>, the
  payload decodes and no file operation is refused, the patch stores payload byte \<open>i\<close>
  at position \<open>offset + i\<close> for every \<open>i\<close> with \<open>offset + i < file_size\<close>, stores to
  the positions from \<open>offset\<close> up to the end of the payload or of the file and no further
  (the remaining payload bytes are dropped), leaves every other byte as it was, and the
  destination written has exactly \<open>file_size\<close> bytes.
\<close>

theorem patch_within_file:
  assumes "io_succeeds w f src dst" "length hexStr \<le> 1000" "parseHexString hexStr = Inr bin"
    and "strtol posArg = pos" "0 \<le> pos" "pos < int (length (content f))"
    and "length (content f) < 2 ^ 63"
  shows "\<exists>b'. apply_patch pos (int (length (content f))) bin (content f) =
                Some (b', map (\<lambda>k. pos + int k)
                            [0 ..< min (length bin) (length (content f) - nat pos)]) \<and>
              length b' = length (content f) \<and>
              (\<forall>i<length bin. nat pos + i < length (content f) \<longrightarrow> b' ! (nat pos + i) = bin ! i) \<and>
              (\<forall>j<length (content f). j < nat pos \<or> nat pos + length bin \<le> j \<longrightarrow> b' ! j = content f ! j) \<and>
              fst (main [prog, ''-pos'', posArg, ''-w'', hexStr, ''-r'', src, ''-o'', dst] w) = Success \<and>
              map_option content
                (files (snd (main [prog, ''-pos'', posArg, ''-w'', hexStr, ''-r'', src, ''-o'', dst] w)) dst) = Some b'"
proof -
  from apply_patch_inside[OF refl assms(7,5,6), of bin]
  obtain b' where
    r: "apply_patch pos (int (length (content f))) bin (content f) =
          Some (b', map (\<lambda>k. pos + int k) [0 ..< min (length bin) (length (content f) - nat pos)])"
    and l: "length b' = length (content f)"
    and v: "\<forall>j<length (content f). b' ! j =
             (if nat pos \<le> j \<and> j < nat pos + length bin then bin ! (j - nat pos) else content f ! j)"
    by blast
  have inside: "\<forall>i<length bin. nat pos + i < length (content f) \<longrightarrow> b' ! (nat pos + i) = bin ! i"
    using v by simp
  have outside: "\<forall>j<length (content f). j < nat pos \<or> nat pos + length bin \<le> j \<longrightarrow> b' ! j = content f ! j"
    using v by auto
  have p: "apply_patch (strtol posArg) (int (length (content f))) bin (content f) =
          Some (b', map (\<lambda>k. pos + int k) [0 ..< min (length bin) (length (content f) - nat pos)])"
    using r assms(4) by simp
  have m: "fst (main [prog, ''-pos'', posArg, ''-w'', hexStr, ''-r'', src, ''-o'', dst] w) = Success"
    and c: "map_option content
       (files (snd (main [prog, ''-pos'', posArg, ''-w'', hexStr, ''-r'', src, ''-o'', dst] w)) dst) = Some b'"
    unfolding main_try_run[OF assms(1,2,3) p] by simp_all
  show ?thesis using r l inside outside m c by blast
qed

theorem patch_within_file_witness:
  "io_succeeds demo_world demo_file ''a'' ''b'' \<and> length ''AABB'' \<le> (1000::nat) \<and>
   parseHexString ''AABB'' = Inr [0xAA, 0xBB] \<and> strtol ''3'' = 3 \<and>
   (3::int) < int (length (content demo_file)) \<and> length (content demo_file) < 2 ^ 63 \<and>
   fst (main [''hexedit'', ''-pos'', ''3'', ''-w'', ''AABB'', ''-r'', ''a'', ''-o'', ''b''] demo_world) = Success \<and>
   map_option content
     (files (snd (main [''hexedit'', ''-pos'', ''3'', ''-w'', ''AABB'', ''-r'', ''a'', ''-o'', ''b''] demo_world)) ''b'')
     = Some [0x10, 0x11, 0x12, 0xAA]"
proof -
  have h: "(3::int) < int (length (content demo_file))" "length (content demo_file) < 2 ^ 63"
    by (simp_all add: demo_file_def)
  from patch_within_file[OF demo_io _ parse_AABB strtol_examples(1) _ h, of "''hexedit''"]
  obtain b' where
    l: "length b' = length (content demo_file)"
    and i: "\<forall>i<length [0xAA, 0xBB :: byte]. nat 3 + i < length (content demo_file) \<longrightarrow>
              b' ! (nat 3 + i) = [0xAA, 0xBB] ! i"
    and j: "\<forall>j<length (content demo_file). j < nat 3 \<or> nat 3 + length [0xAA, 0xBB :: byte] \<le> j \<longrightarrow>
              b' ! j = content demo_file ! j"
    and m: "fst (main [''hexedit'', ''-pos'', ''3'', ''-w'', ''AABB'', ''-r'', ''a'', ''-o'', ''b''] demo_world) = Success"
    and c: "map_option content
     (files (snd (main [''hexedit'', ''-pos'', ''3'', ''-w'', ''AABB'', ''-r'', ''a'', ''-o'', ''b''] demo_world)) ''b'')
     = Some b'"
    by auto
  have "b' = [0x10, 0x11, 0x12, 0xAA]"
  proof (rule nth_equalityI)
    show "length b' = length [0x10, 0x11, 0x12, 0xAA :: byte]" using l by (simp add: demo_file_def)
  next
    fix k assume "k < length b'"
    then have "k = 0 \<or> k = 1 \<or> k = 2 \<or> k = 3" using l by (auto simp: demo_file_def)
    moreover have "b' ! 3 = 0xAA" using i[rule_format, of 0] by (simp add: demo_file_def)
    moreover have "b' ! 0 = 0x10" "b' ! 1 = 0x11" "b' ! 2 = 0x12"
      using j[rule_format, of 0] j[rule_format, of 1] j[rule_format, of 2] by (simp_all add: demo_file_def)
    ultimately show "b' ! k = [0x10, 0x11, 0x12, 0xAA] ! k" by auto
  qed
  then show ?thesis using m c h demo_io parse_AABB strtol_examples(1) by simp
qed

text \<open>
  C2. With a payload that decodes and no file operation refused, an offset below zero
  or at or beyond the file size changes no byte of the buffer, the run ends with exit
  code 0, and the destination holds the bytes of the source.
\<close>

theorem offset_out_of_range_copies:
  assumes "io_succeeds w f src dst" "length hexStr \<le> 1000" "parseHexString hexStr = Inr bin"
    and "strtol posArg < 0 \<or> int (length (content f)) \<le> strtol posArg"
  shows "apply_patch (strtol posArg) (int (length (content f))) bin (content f) = Some (content f, []) \<and>
         exit_code (fst (main [prog, ''-pos'', posArg, ''-w'', hexStr, ''-r'', src, ''-o'', dst] w)) = 0 \<and>
         map_option content
           (files (snd (main [prog, ''-pos'', posArg, ''-w'', hexStr, ''-r'', src, ''-o'', dst] w)) dst)
           = Some (content f)"
proof -
  have p: "apply_patch (strtol posArg) (int (length (content f))) bin (content f) = Some (content f, [])"
    using assms(4) by (rule apply_patch_outside)
  show ?thesis unfolding main_try_run[OF assms(1,2,3) p] using p by simp
qed

theorem offset_out_of_range_copies_witness:
  "io_succeeds demo_world demo_file ''a'' ''b'' \<and> length ''FF'' \<le> (1000::nat) \<and>
   parseHexString ''FF'' = Inr [0xFF] \<and> strtol ''4'' = 4 \<and> strtol ''-1'' = -1 \<and>
   int (length (content demo_file)) \<le> 4 \<and>
   exit_code (fst (main [''hexedit'', ''-pos'', ''4'', ''-w'', ''FF'', ''-r'', ''a'', ''-o'', ''b''] demo_world)) = 0 \<and>
   map_option content
     (files (snd (main [''hexedit'', ''-pos'', ''4'', ''-w'', ''FF'', ''-r'', ''a'', ''-o'', ''b''] demo_world)) ''b'')
     = Some [0x10, 0x11, 0x12, 0x13] \<and>
   exit_code (fst (main [''hexedit'', ''-pos'', ''-1'', ''-w'', ''FF'', ''-r'', ''a'', ''-o'', ''b''] demo_world)) = 0 \<and>
   map_option content
     (files (snd (main [''hexedit'', ''-pos'', ''-1'', ''-w'', ''FF'', ''-r'', ''a'', ''-o'', ''b''] demo_world)) ''b'')
     = Some [0x10, 0x11, 0x12, 0x13]"
  using offset_out_of_range_copies[OF demo_io _ parse_FF, of "''4''" "''hexedit''"]
        offset_out_of_range_copies[OF demo_io _ parse_FF, of "''-1''" "''hexedit''"]
        demo_io parse_FF strtol_examples
  by (simp add: demo_file_def)

text \<open>
  C10. In the guarded patch loop every index the loop stores to lies in the buffer:
  with a buffer of \<open>fileSize\<close> bytes (\<open>fileSize\<close> an \<open>off_t\<close>), for every offset and every
  payload the block returns normally (the out-of-bounds branch is not reached) and
  every index written satisfies \<open>0 \<le> dstPos < fileSize\<close>.
\<close>

theorem patch_writes_in_bounds:
  assumes "fileSize = int (length buffer)" "fileSize < 2 ^ 63"
  shows "\<exists>b' written. apply_patch pos fileSize binData buffer = Some (b', written) \<and>
           (\<forall>d\<in>set written. 0 \<le> d \<and> d < fileSize)"
proof (cases "0 \<le> pos \<and> pos < fileSize")
  case False
  then show ?thesis by (auto simp: apply_patch_def)
next
  case True
  have lb: "length buffer < 2 ^ 63"
    using assms by (simp add: of_nat_less_iff[of _ "2 ^ 63", simplified])
  from apply_patch_inside[OF assms(1) lb, of pos binData] True
  obtain b' where
    r: "apply_patch pos fileSize binData buffer =
          Some (b', map (\<lambda>k. pos + int k) [0 ..< min (length binData) (length buffer - nat pos)])"
    by blast
  have "0 \<le> d \<and> d < fileSize"
    if "d \<in> set (map (\<lambda>k. pos + int k) [0 ..< min (length binData) (length buffer - nat pos)])" for d
  proof -
    from that obtain k where "d = pos + int k" "k < length buffer - nat pos" by auto
    then show ?thesis using True assms(1) by auto
  qed
  then show ?thesis using r by blast
qed

theorem patch_writes_in_bounds_witness:
  "(4::int) = int (length [0x10, 0x11, 0x12, 0x13 :: byte]) \<and> (4::int) < 2 ^ 63 \<and>
   (\<exists>b' written. apply_patch 3 4 [0xAA, 0xBB] [0x10, 0x11, 0x12, 0x13] = Some (b', written) \<and>
      (\<forall>d\<in>set written. 0 \<le> d \<and> d < 4))"
  using patch_writes_in_bounds[of 4 "[0x10, 0x11, 0x12, 0x13]" 3 "[0xAA, 0xBB]"] by simp

text \<open>
  The same for a whole run: when every file is shorter than \<open>2^63\<close> bytes, no run of
  \<open>main\<close> indexes the buffer out of bounds.
\<close>

lemma main_never_out_of_bounds:
  assumes "\<And>p f. files w p = Some f \<Longrightarrow> length (content f) < 2 ^ 63"
  shows "fst (main argv w) \<noteq> OutOfBounds"
proof
  assume oob: "fst (main argv w) = OutOfBounds"
  then have t: "fst (main_try argv w) = OutOfBounds"
    by (auto simp: main_def split: if_splits)
  have len: "length (argv ! 4) \<le> 1000"
    using t by (auto simp: main_try_def Let_def split: if_splits)
  obtain st w1 where s1: "stat_file (argv ! 6) w = (Some st, w1)"
    using t len by (auto simp: main_try_def Let_def split: prod.splits option.splits)
  then obtain f where f: "files w (argv ! 6) = Some f"
    and st: "st = \<lparr>st_size = int (length (content f)), st_atimespec = atime f, st_mtimespec = mtime f\<rparr>"
    and w1: "w1 = w\<lparr>trace := trace w @ [Stat (argv ! 6)]\<rparr>"
    using stat_file_Some by blast
  obtain buffer w2 where s2: "read_source (argv ! 6) (int (length (content f))) w1 = (Inr buffer, w2)"
    using t len s1 st
    by (auto simp: main_try_def Let_def split: prod.splits sum.splits dest: read_source_fails)
  have buf: "buffer = content f"
    using s2 f by (auto simp: read_source_def Let_def w1 split: if_splits)
  obtain bin where hex: "parseHexString (argv ! 4) = Inr bin"
    using t len s1 st s2 by (auto simp: main_try_def Let_def split: sum.splits)
  have none: "apply_patch (strtol (argv ! 2)) (int (length (content f))) bin (content f) = None"
    using t len s1 st s2 hex buf
    by (auto simp: main_try_def Let_def split: option.splits prod.splits bool.splits
             dest: write_dest_fails)
  have "length (content f) < 2 ^ 63" using assms[OF f] .
  then have sz: "length (content f) < 2 ^ 63" by simp
  show False
  proof (cases "0 \<le> strtol (argv ! 2) \<and> strtol (argv ! 2) < int (length (content f))")
    case True
    then show False using apply_patch_inside[OF refl sz, of "strtol (argv ! 2)" bin] none by auto
  next
    case False
    then show False using apply_patch_outside[of "strtol (argv ! 2)" "int (length (content f))" bin "content f"] none
      by auto
  qed
qed

section \<open>Properties of the decoder and of the wipe\<close>

text \<open>
  C3. For an input of at most 1000 characters, \<open>parseHexString\<close> throws (a
  \<open>std::runtime_error\<close>, the program's format error) exactly when the length is odd or
  some character is not a hexadecimal digit. Otherwise it returns \<open>length / 2\<close> bytes,
  and byte \<open>i\<close> is 16 times the value of the digit at index \<open>2i\<close> plus the value of the
  digit at index \<open>2i + 1\<close>.
\<close>

theorem parseHexString_decodes:
  assumes "length s \<le> 1000"
  shows "((\<exists>msg. parseHexString s = Inl (RuntimeError msg)) \<longleftrightarrow>
            (odd (length s) \<or> (\<exists>c\<in>set s. \<not> is_hex_digit c))) \<and>
         (\<not> (odd (length s) \<or> (\<exists>c\<in>set s. \<not> is_hex_digit c)) \<longrightarrow>
            (\<exists>bs. parseHexString s = Inr bs \<and> length bs = length s div 2 \<and>
               (\<forall>i<length bs. unat (bs ! i) =
                  16 * digit_value (s ! (2 * i)) + digit_value (s ! (2 * i + 1)))))"
proof (cases "odd (length s)")
  case True
  then show ?thesis by (simp add: parseHexString_def odd_iff_mod_2_eq_one)
next
  case even: False
  then have p: "parseHexString s = parse_loop s 0 []" by (simp add: parseHexString_def)
  show ?thesis
  proof (cases "\<exists>c\<in>set s. \<not> is_hex_digit c")
    case True
    then obtain k where "k < length s" "\<not> is_hex_digit (s ! k)"
      by (auto simp: in_set_conv_nth)
    then have "\<exists>e. parse_loop s 0 [] = Inl e"
      using even by (intro parse_loop_bad[where k = k]) simp_all
    then obtain e where "parse_loop s 0 [] = Inl e" ..
    then have "\<exists>msg. parseHexString s = Inl (RuntimeError msg)"
      unfolding p by (cases e) simp
    then show ?thesis using True by simp
  next
    case False
    then have hex: "\<forall>k<length s. is_hex_digit (s ! k)" by simp
    define bs where "bs = map (\<lambda>k. byteVal (int (digit_value (s ! (2 * k)))) (int (digit_value (s ! (2 * k + 1)))))
                        [0 ..< length s div 2]"
    have r: "parseHexString s = Inr bs"
      unfolding p bs_def using parse_loop_ok[of s 0 "[]"] even hex by simp
    have len: "length bs = length s div 2" by (simp add: bs_def)
    have nth: "unat (bs ! i) = 16 * digit_value (s ! (2 * i)) + digit_value (s ! (2 * i + 1))"
      if "i < length bs" for i
    proof -
      from that len even have "2 * i < length s" "2 * i + 1 < length s" by presburger+
      then have "is_hex_digit (s ! (2 * i))" "is_hex_digit (s ! (2 * i + 1))" using hex by blast+
      then show ?thesis using that len by (simp add: bs_def unat_byteVal)
    qed
    show ?thesis using r len nth even False by auto
  qed
qed

theorem parseHexString_decodes_witness:
  "length ''1aF0'' \<le> (1000::nat) \<and>
   (\<exists>bs. parseHexString ''1aF0'' = Inr bs \<and> length bs = 2 \<and> unat (bs ! 0) = 26 \<and> unat (bs ! 1) = 240) \<and>
   length ''12G4'' \<le> (1000::nat) \<and> (\<exists>msg. parseHexString ''12G4'' = Inl (RuntimeError msg))"
  using parseHexString_decodes[of "''1aF0''"] parseHexString_decodes[of "''12G4''"]
  by (auto simp: is_hex_digit_def digit_value_def upper_hex_def hexDigits_def)

text \<open>
  C5. For every string of even length made of hexadecimal digits only, decoding it and
  writing each byte as two hexadecimal digits gives the string back up to the case of
  its letters: the upper-case rendering of the bytes is the upper-cased string.
\<close>

theorem parseHexString_roundtrip:
  assumes "even (length s)" "\<forall>c\<in>set s. is_hex_digit c"
  shows "\<exists>bs. parseHexString s = Inr bs \<and> encodeHex bs = map upper_hex s"
proof -
  have p: "parseHexString s = parse_loop s 0 []" using assms(1) by (simp add: parseHexString_def)
  have "\<forall>k<length s. 0 \<le> k \<longrightarrow> is_hex_digit (s ! k)" using assms(2) by simp
  from parse_loop_ok[OF assms(1) _ this] obtain bs where bs: "parse_loop s 0 [] = Inr bs" by auto
  have "encodeHex bs = encodeHex [] @ map upper_hex (drop 0 s)"
    using bs assms(1) by (rule parse_loop_roundtrip) simp
  then show ?thesis using p bs by (simp add: encodeHex_def)
qed

theorem parseHexString_roundtrip_witness:
  "even (length ''1aF0'') \<and> list_all is_hex_digit ''1aF0'' \<and>
   (\<exists>bs. parseHexString ''1aF0'' = Inr bs \<and> encodeHex bs = ''1AF0'')"
  using parseHexString_roundtrip[of "''1aF0''"]
  by (simp add: is_hex_digit_def upper_hex_def)

text \<open>
  C9. After \<open>secureZero ptr len\<close> every one of the \<open>len\<close> bytes from \<open>ptr\<close> on is
  zero, for every pointer, length and memory.
\<close>

theorem secureZero_zeroes: "\<forall>i<len. secureZero ptr len mem (ptr + i) = 0"
  by (simp add: secureZero_inside)

theorem secureZero_zeroes_witness:
  "(1::nat) < 3 \<and> secureZero 100 3 (\<lambda>a. 0xFF) (100 + 1) = 0"
  using secureZero_zeroes[of 3 100 "\<lambda>a. 0xFF", rule_format, of 1] by simp

section \<open>Properties of the arguments, the length limit and the times\<close>

text \<open>
  C4. A run whose hexadecimal argument is longer than 1000 characters fails with the
  format error (the \<open>std::runtime_error\<close> of line 97, caught at line 180: exit code 1)
  whatever the characters are, before any file is touched. The length is checked in
  \<open>main\<close>, not in \<open>parseHexString\<close>.
\<close>

theorem overlong_hex_rejected:
  assumes "length hexStr > 1000"
  shows "main [prog, ''-pos'', posArg, ''-w'', hexStr, ''-r'', src, ''-o'', dst] w =
           (Caught (RuntimeError ''HEX data length exceeds maximum allowed (1000 characters).''), w) \<and>
         exit_code (fst (main [prog, ''-pos'', posArg, ''-w'', hexStr, ''-r'', src, ''-o'', dst] w)) = 1"
proof -
  have "\<not> length [prog, ''-pos'', posArg, ''-w'', hexStr, ''-r'', src, ''-o'', dst] \<noteq> 9" by simp
  then have "main [prog, ''-pos'', posArg, ''-w'', hexStr, ''-r'', src, ''-o'', dst] w =
             main_try [prog, ''-pos'', posArg, ''-w'', hexStr, ''-r'', src, ''-o'', dst] w"
    by (simp add: main_def)
  also have "\<dots> = (Caught (RuntimeError ''HEX data length exceeds maximum allowed (1000 characters).''), w)"
    using assms by (simp add: main_try_def)
  finally show ?thesis by simp
qed

theorem overlong_hex_rejected_witness:
  "length (replicate 1002 CHR ''A'') > 1000 \<and> list_all is_hex_digit (replicate 1002 CHR ''A'') \<and>
   main [''hexedit'', ''-pos'', ''0'', ''-w'', replicate 1002 CHR ''A'', ''-r'', ''a'', ''-o'', ''b''] demo_world =
     (Caught (RuntimeError ''HEX data length exceeds maximum allowed (1000 characters).''), demo_world)"
  using overlong_hex_rejected[of "replicate 1002 CHR ''A''" "''hexedit''" "''0''" "''a''" "''b''" demo_world]
  by (simp add: list_all_iff is_hex_digit_def)

text \<open>
  Without the check of \<open>main\<close> the decoder itself accepts such a string.
\<close>

lemma parseHexString_alone_has_no_limit:
  "\<exists>bs. parseHexString (replicate 1002 CHR ''A'') = Inr bs \<and> length bs = 501"
proof -
  have "parse_loop (replicate 1002 CHR ''A'') 0 [] =
          Inr ([] @ map (\<lambda>k. byteVal (int (digit_value (replicate 1002 CHR ''A'' ! (2 * k))))
                                 (int (digit_value (replicate 1002 CHR ''A'' ! (2 * k + 1)))))
                      [0 div 2 ..< length (replicate 1002 CHR ''A'') div 2])"
    by (rule parse_loop_ok) (simp_all add: is_hex_digit_def)
  then show ?thesis by (simp add: parseHexString_def)
qed

text \<open>
  C6, as the claim states it, fails: \<open>1x\<close> is not a base-10 integer, yet the payload
  lands at byte 1, not at byte 0, because \<open>strtol\<close> converts the leading digit.
\<close>

theorem unparsable_pos_counterexample:
  "\<not> is_base10_integer ''1x'' \<and>
   fst (main [''hexedit'', ''-pos'', ''1x'', ''-w'', ''FF'', ''-r'', ''a'', ''-o'', ''b''] demo_world) = Success \<and>
   map_option content
     (files (snd (main [''hexedit'', ''-pos'', ''1x'', ''-w'', ''FF'', ''-r'', ''a'', ''-o'', ''b''] demo_world)) ''b'')
     = Some [0x10, 0xFF, 0x12, 0x13] \<and>
   map_option content
     (files (snd (main [''hexedit'', ''-pos'', ''0'', ''-w'', ''FF'', ''-r'', ''a'', ''-o'', ''b''] demo_world)) ''b'')
     = Some [0xFF, 0x11, 0x12, 0x13]"
proof -
  have n: "\<not> is_base10_integer ''1x''" by (simp add: is_base10_integer_def isdigit_def)
  have p1: "apply_patch (strtol ''1x'') (int (length (content demo_file))) [0xFF] (content demo_file)
              = Some ([0x10, 0xFF, 0x12, 0x13], [1])"
    by code_simp
  have p0: "apply_patch (strtol ''0'') (int (length (content demo_file))) [0xFF] (content demo_file)
              = Some ([0xFF, 0x11, 0x12, 0x13], [0])"
    by code_simp
  show ?thesis
    unfolding main_try_run[OF demo_io _ parse_FF p1, simplified]
              main_try_run[OF demo_io _ parse_FF p0, simplified]
    using n by simp
qed

text \<open>
  C6, amended. When the \<open>-pos\<close> argument holds no digit where \<open>strtol\<close> looks for the
  number (after leading white space and one optional sign), the offset is zero: the run
  is the run with \<open>-pos 0\<close>, it is not a usage error, and with a payload that decodes, a
  non-empty source and no file operation refused it succeeds with the payload stored
  from byte 0 of the file on.
\<close>

theorem pos_without_digits_is_zero:
  assumes "snd (strtol_subject posArg) = []"
  shows "strtol posArg = 0 \<and>
         main [prog, ''-pos'', posArg, ''-w'', hexStr, ''-r'', src, ''-o'', dst] w =
           main [prog, ''-pos'', ''0'', ''-w'', hexStr, ''-r'', src, ''-o'', dst] w \<and>
         fst (main [prog, ''-pos'', posArg, ''-w'', hexStr, ''-r'', src, ''-o'', dst] w) \<noteq> Usage \<and>
         fst (main [prog, ''-pos'', posArg, ''-w'', hexStr, ''-r'', src, ''-o'', dst] w) \<noteq> InvalidOrder \<and>
         (io_succeeds w f src dst \<and> length hexStr \<le> 1000 \<and> parseHexString hexStr = Inr bin \<and>
          content f \<noteq> [] \<and> length (content f) < 2 ^ 63 \<longrightarrow>
            fst (main [prog, ''-pos'', posArg, ''-w'', hexStr, ''-r'', src, ''-o'', dst] w) = Success \<and>
            (\<exists>b'. map_option content
                     (files (snd (main [prog, ''-pos'', posArg, ''-w'', hexStr, ''-r'', src, ''-o'', dst] w)) dst)
                     = Some b' \<and>
                   length b' = length (content f) \<and>
                   (\<forall>j<length (content f). b' ! j = (if j < length bin then bin ! j else content f ! j))))"
proof -
  have z: "strtol posArg = 0" using assms by (rule strtol_no_digits)
  then have e: "main [prog, ''-pos'', posArg, ''-w'', hexStr, ''-r'', src, ''-o'', dst] w =
           main [prog, ''-pos'', ''0'', ''-w'', hexStr, ''-r'', src, ''-o'', dst] w"
    by (intro main_pos_cong) (simp add: strtol_zero)
  have u: "fst (main [prog, ''-pos'', posArg, ''-w'', hexStr, ''-r'', src, ''-o'', dst] w) \<noteq> Usage"
          "fst (main [prog, ''-pos'', posArg, ''-w'', hexStr, ''-r'', src, ''-o'', dst] w) \<noteq> InvalidOrder"
    unfolding main_wellformed using main_try_not_usage by blast+
  have run: "fst (main [prog, ''-pos'', posArg, ''-w'', hexStr, ''-r'', src, ''-o'', dst] w) = Success \<and>
            (\<exists>b'. map_option content
                     (files (snd (main [prog, ''-pos'', posArg, ''-w'', hexStr, ''-r'', src, ''-o'', dst] w)) dst)
                     = Some b' \<and>
                   length b' = length (content f) \<and>
                   (\<forall>j<length (content f). b' ! j = (if j < length bin then bin ! j else content f ! j)))"
    if io: "io_succeeds w f src dst" and len: "length hexStr \<le> 1000"
      and hex: "parseHexString hexStr = Inr bin" and ne: "content f \<noteq> []"
      and sz: "length (content f) < 2 ^ 63"
  proof -
    have "(0::int) < int (length (content f))" using ne by simp
    from apply_patch_inside[OF refl sz order_refl this, of bin]
    obtain b' wr where
      r: "apply_patch 0 (int (length (content f))) bin (content f) = Some (b', wr)"
      and l: "length b' = length (content f)"
      and v: "\<forall>j<length (content f). b' ! j = (if j < length bin then bin ! j else content f ! j)"
      by auto
    have p: "apply_patch (strtol posArg) (int (length (content f))) bin (content f) = Some (b', wr)"
      using r z by simp
    show ?thesis unfolding main_try_run[OF io len hex p] using l v by simp
  qed
  show ?thesis using z e u run by blast
qed

theorem pos_without_digits_is_zero_witness:
  "snd (strtol_subject ''abc'') = [] \<and> strtol ''abc'' = 0 \<and>
   io_succeeds demo_world demo_file ''a'' ''b'' \<and> parseHexString ''FF'' = Inr [0xFF] \<and>
   fst (main [''hexedit'', ''-pos'', ''abc'', ''-w'', ''FF'', ''-r'', ''a'', ''-o'', ''b''] demo_world) = Success \<and>
   (\<exists>b'. map_option content
            (files (snd (main [''hexedit'', ''-pos'', ''abc'', ''-w'', ''FF'', ''-r'', ''a'', ''-o'', ''b''] demo_world)) ''b'')
            = Some b' \<and> length b' = 4 \<and> b' ! 0 = 0xFF \<and> b' ! 1 = 0x11)"
proof -
  have s: "snd (strtol_subject ''abc'') = []" by code_simp
  have h: "content demo_file \<noteq> []" "length (content demo_file) < 2 ^ 63" by (simp_all add: demo_file_def)
  from pos_without_digits_is_zero[OF s, of "''hexedit''" "''FF''" "''a''" "''b''" demo_world demo_file "[0xFF]"]
    demo_io parse_FF h
  show ?thesis using s by (auto simp: demo_file_def)
qed

text \<open>
  C7. An argument list that is not the program name followed by \<open>-pos\<close>, \<open>-w\<close>, \<open>-r\<close>,
  \<open>-o\<close> in this order, each with its value, ends the run with exit code 1 and leaves the
  world as it was: no file operation is performed and no destination is written.
\<close>

theorem bad_arguments_rejected:
  assumes "\<not> (\<exists>prog posArg hexStr src dst.
              argv = [prog, ''-pos'', posArg, ''-w'', hexStr, ''-r'', src, ''-o'', dst])"
  shows "exit_code (fst (main argv w)) = 1 \<and> snd (main argv w) = w"
proof -
  consider (count) "main argv w = (Usage, w)" | (flags) "main argv w = (InvalidOrder, w)"
    using main_usage[OF assms, of w] by blast
  then show ?thesis
  proof cases
    case count
    then show ?thesis by simp
  next
    case flags
    then show ?thesis by simp
  qed
qed

theorem bad_arguments_rejected_witness:
  "exit_code (fst (main [''hexedit'', ''-w'', ''FF'', ''-pos'', ''0'', ''-r'', ''a'', ''-o'', ''b''] demo_world)) = 1 \<and>
   snd (main [''hexedit'', ''-w'', ''FF'', ''-pos'', ''0'', ''-r'', ''a'', ''-o'', ''b''] demo_world) = demo_world \<and>
   exit_code (fst (main [''hexedit'', ''-pos'', ''0'', ''-w'', ''FF'', ''-r'', ''a''] demo_world)) = 1 \<and>
   snd (main [''hexedit'', ''-pos'', ''0'', ''-w'', ''FF'', ''-r'', ''a''] demo_world) = demo_world"
  using bad_arguments_rejected[of "[''hexedit'', ''-w'', ''FF'', ''-pos'', ''0'', ''-r'', ''a'', ''-o'', ''b'']" demo_world]
        bad_arguments_rejected[of "[''hexedit'', ''-pos'', ''0'', ''-w'', ''FF'', ''-r'', ''a'']" demo_world]
  by simp

text \<open>
  What a successful run does with the times: the destination carries the access and
  modification times that \<open>stat\<close> reported for the source at the start of the run, each
  rounded down to whole microseconds (the unit of \<open>utimes\<close>), and the file operations
  are, in this order, the \<open>stat\<close> of the source, its reading, the creation of the
  destination, the writing, and last the update of the times. The destination holds
  the bytes the system took, which need not be all of them.
\<close>

lemma bytes_taken_le: "bytes_taken w path n \<le> n"
  by (simp add: bytes_taken_def split: option.splits)

lemma successful_run_times:
  assumes "fst (main argv w) = Success" "files w (argv ! 6) = Some f"
    and "valid_timespec (atime f)" "valid_timespec (mtime f)"
  shows "\<exists>d. files (snd (main argv w)) (argv ! 8) = Some d \<and>
             atime d = usec_floor (atime f) \<and> mtime d = usec_floor (mtime f) \<and>
             length (content d) = bytes_taken w (argv ! 8) (length (content f)) \<and>
             trace (snd (main argv w)) =
               trace w @ [Stat (argv ! 6), OpenRead (argv ! 6), OpenTrunc (argv ! 8),
                          WriteBytes (argv ! 8) (bytes_taken w (argv ! 8) (length (content f))),
                          Utimes (argv ! 8)]"
proof -
  from main_Success_D[OF assms(1)] obtain prog posArg hexStr src dst f' bin b' wr where
    argv: "argv = [prog, ''-pos'', posArg, ''-w'', hexStr, ''-r'', src, ''-o'', dst]"
    and f': "files w src = Some f'" and o: "open_ok w src" and r: "read_ok w src"
    and c: "create_ok w dst" and u: "utimes_ok w dst"
    and rep: "\<not> bytes_taken w dst (length (content f')) < bytes_passed w (length (content f'))"
    and len: "length hexStr \<le> 1000"
    and hex: "parseHexString hexStr = Inr bin"
    and p: "apply_patch (strtol posArg) (int (length (content f'))) bin (content f') = Some (b', wr)"
    by blast
  have e: "f' = f" using f' assms(2) by (simp add: argv)
  have lb: "length b' = length (content f)" using p unfolding e by (rule apply_patch_length)
  note run = main_try_run_gen[OF f' o r c u rep len hex p, of prog, unfolded e]
  show ?thesis
    unfolding argv run
    using bytes_taken_le[of w dst "length (content f)"]
    by (simp add: to_timeval_valid[OF assms(3)] to_timeval_valid[OF assms(4)] lb)
qed

text \<open>
  C8 fails on the code where the system refuses bytes that the stream still holds when
  \<open>write\<close> returns. On a device with no space left, the four bytes of the source stay
  in the stream's buffer, the test of line 156 passes, the destructor's flush is refused
  unnoticed, and the run sets the times and ends with exit code 0 on a destination that
  holds no byte: the update of the times does not wait for a fully written destination.
\<close>

theorem unchecked_flush_sets_times:
  "length (content demo_file) = 4 \<and>
   fst (main [''hexedit'', ''-pos'', ''0'', ''-w'', ''FF'', ''-r'', ''a'', ''-o'', ''b''] full_world) = Success \<and>
   exit_code (fst (main [''hexedit'', ''-pos'', ''0'', ''-w'', ''FF'', ''-r'', ''a'', ''-o'', ''b''] full_world)) = 0 \<and>
   map_option content
     (files (snd (main [''hexedit'', ''-pos'', ''0'', ''-w'', ''FF'', ''-r'', ''a'', ''-o'', ''b''] full_world)) ''b'')
     = Some [] \<and>
   trace (snd (main [''hexedit'', ''-pos'', ''0'', ''-w'', ''FF'', ''-r'', ''a'', ''-o'', ''b''] full_world)) =
     [Stat ''a'', OpenRead ''a'', OpenTrunc ''b'', WriteBytes ''b'' 0, Utimes ''b'']"
proof -
  have f: "files full_world ''a'' = Some demo_file"
    and ok: "open_ok full_world ''a''" "read_ok full_world ''a''" "create_ok full_world ''b''"
            "utimes_ok full_world ''b''"
    by (simp_all add: full_world_def demo_world_def always_def)
  have n: "length (content demo_file) = 4" by (simp add: demo_file_def)
  have t: "bytes_taken full_world ''b'' (length (content demo_file)) = 0"
    by (simp add: bytes_taken_def full_world_def no_space_def)
  have h: "bytes_passed full_world (length (content demo_file)) = 0"
    by (simp add: n bytes_passed_def full_world_def demo_world_def held_up_to_4096_def)
  have rep: "\<not> bytes_taken full_world ''b'' (length (content demo_file))
               < bytes_passed full_world (length (content demo_file))"
    by (simp add: t h)
  have p: "apply_patch (strtol ''0'') (int (length (content demo_file))) [0xFF] (content demo_file)
             = Some ([0xFF, 0x11, 0x12, 0x13], [0])"
    by code_simp
  show ?thesis
    unfolding main_try_run_gen[OF f ok rep _ parse_FF p, simplified] t
    using n by (simp add: full_world_def demo_world_def)
qed

theorem unchecked_flush_sets_times_witness:
  "exit_code (fst (main [''hexedit'', ''-pos'', ''0'', ''-w'', ''FF'', ''-r'', ''a'', ''-o'', ''b''] full_world)) = 0 \<and>
   map_option (length \<circ> content)
     (files (snd (main [''hexedit'', ''-pos'', ''0'', ''-w'', ''FF'', ''-r'', ''a'', ''-o'', ''b''] full_world)) ''b'')
     = Some 0"
  using unchecked_flush_sets_times by (simp add: option.map_comp[symmetric])

end
